theory Spec2Isabelle
  imports Main "HOL-Library.Word" "HOL-Library.Stream"
begin

section \<open>The draggable rectangles of multi\_drag.cpp\<close>

text \<open>
  The embedding follows \<^verbatim>\<open>src/multi_drag.cpp\<close>: the nested classes
  \<^verbatim>\<open>DraggableObject\<close> and \<^verbatim>\<open>ObjectManager\<close> of \<^verbatim>\<open>SDLApp\<close> and the event switch of
  \<^verbatim>\<open>SDLApp::handleEvents\<close>. Window, renderer and drawing are not modelled.

  A C++ \<^verbatim>\<open>int\<close> (and SDL's \<^verbatim>\<open>Sint32\<close>) is a 32-bit word; comparisons are the signed
  ones (\<open>\<le>s\<close>, \<open><s\<close>), and \<open>+\<close>, \<open>-\<close> are two's complement. Signed overflow is undefined
  in C++; the model gives it the wrapped result, so every theorem below also covers the
  inputs on which the arithmetic of the source overflows.
\<close>

subsection \<open>Data\<close>

type_synonym cint = "32 word"
type_synonym Uint8 = "8 word"

text \<open>\<^verbatim>\<open>SDL_Rect { int x, y; int w, h; }\<close> and \<^verbatim>\<open>SDL_Color { Uint8 r, g, b, a; }\<close>.\<close>

record SDL_Rect =
  rect_x :: cint
  rect_y :: cint
  rect_w :: cint
  rect_h :: cint

record SDL_Color =
  col_r :: Uint8
  col_g :: Uint8
  col_b :: Uint8
  col_a :: Uint8

record DraggableObject =
  rect :: SDL_Rect
  color :: SDL_Color
  isDragging :: bool
  dragOffsetX :: cint
  dragOffsetY :: cint

text \<open>The fields of the SDL events that the program reads.\<close>

record SDL_MouseButtonEvent =
  ev_button :: Uint8
  ev_x :: cint
  ev_y :: cint

record SDL_MouseMotionEvent =
  mot_x :: cint
  mot_y :: cint

datatype SDL_Event =
    SDL_QUIT
  | SDL_MOUSEBUTTONDOWN SDL_MouseButtonEvent
  | SDL_MOUSEBUTTONUP SDL_MouseButtonEvent
  | SDL_MOUSEMOTION SDL_MouseMotionEvent
  | SDL_KEYDOWN cint
  | SDL_OTHER

text \<open>Constants of SDL2's headers: the left button is 1, the escape key code is 27.\<close>

definition SDL_BUTTON_LEFT :: Uint8 where
  "SDL_BUTTON_LEFT = 1"

definition SDLK_ESCAPE :: cint where
  "SDLK_ESCAPE = 27"

definition WINDOW_WIDTH :: cint where
  "WINDOW_WIDTH = 800"

definition WINDOW_HEIGHT :: cint where
  "WINDOW_HEIGHT = 600"

subsection \<open>DraggableObject\<close>

definition DraggableObject_new :: "cint \<Rightarrow> cint \<Rightarrow> cint \<Rightarrow> cint \<Rightarrow> SDL_Color \<Rightarrow> DraggableObject" where
  "DraggableObject_new px py pw ph c =
     \<lparr>rect = \<lparr>rect_x = px, rect_y = py, rect_w = pw, rect_h = ph\<rparr>,
      color = c, isDragging = False, dragOffsetX = 0, dragOffsetY = 0\<rparr>"

definition containsPoint :: "DraggableObject \<Rightarrow> cint \<Rightarrow> cint \<Rightarrow> bool" where
  "containsPoint obj px py \<longleftrightarrow>
     rect_x (rect obj) \<le>s px \<and> px <s rect_x (rect obj) + rect_w (rect obj) \<and>
     rect_y (rect obj) \<le>s py \<and> py <s rect_y (rect obj) + rect_h (rect obj)"

text \<open>\<^verbatim>\<open>std::clamp(v, lo, hi)\<close> is \<^verbatim>\<open>(v < lo) ? lo : (hi < v) ? hi : v\<close>.\<close>

definition std_clamp :: "cint \<Rightarrow> cint \<Rightarrow> cint \<Rightarrow> cint" where
  "std_clamp v lo hi = (if v <s lo then lo else if hi <s v then hi else v)"

definition drag :: "DraggableObject \<Rightarrow> cint \<Rightarrow> cint \<Rightarrow> DraggableObject" where
  "drag obj mouseX mouseY =
     (if isDragging obj then
        let r1 = (rect obj)\<lparr>rect_x := mouseX - dragOffsetX obj\<rparr>;
            r2 = r1\<lparr>rect_y := mouseY - dragOffsetY obj\<rparr>;
            r3 = r2\<lparr>rect_x := std_clamp (rect_x r2) 0 (WINDOW_WIDTH - rect_w r2)\<rparr>;
            r4 = r3\<lparr>rect_y := std_clamp (rect_y r3) 0 (WINDOW_HEIGHT - rect_h r3)\<rparr>
        in obj\<lparr>rect := r4\<rparr>
      else obj)"

subsection \<open>ObjectManager\<close>

text \<open>
  The generator \<^verbatim>\<open>rng\<close> together with \<^verbatim>\<open>colorDist(0, 255)\<close> is the stream of the values
  that the successive calls \<^verbatim>\<open>colorDist(rng)\<close> return: each is between 0 and 255, and a
  call consumes one. Nothing else is assumed about the stream.
\<close>

type_synonym rng_state = "Uint8 stream"

record ObjectManager =
  objects :: "DraggableObject list"
  rng :: rng_state

definition colorDist :: "rng_state \<Rightarrow> int \<times> rng_state" where
  "colorDist g = (uint (shd g), stl g)"

text \<open>
  The three calls stand in a braced initialiser list, so they run left to right; each
  result is cast to \<^verbatim>\<open>Uint8\<close>, and alpha is 255.
\<close>

definition generateRandomColor :: "rng_state \<Rightarrow> SDL_Color \<times> rng_state" where
  "generateRandomColor g0 =
     (let (v1, g1) = colorDist g0;
          (v2, g2) = colorDist g1;
          (v3, g3) = colorDist g2
      in (\<lparr>col_r = word_of_int v1, col_g = word_of_int v2, col_b = word_of_int v3,
           col_a = 255\<rparr>, g3))"

definition addObject :: "ObjectManager \<Rightarrow> cint \<Rightarrow> cint \<Rightarrow> ObjectManager" where
  "addObject m px py =
     (let (c, g) = generateRandomColor (rng m)
      in m\<lparr>objects := objects m @ [DraggableObject_new px py 80 80 c], rng := g\<rparr>)"

definition ObjectManager_new :: "rng_state \<Rightarrow> ObjectManager" where
  "ObjectManager_new seed =
     addObject (addObject (addObject \<lparr>objects = [], rng = seed\<rparr> 100 100) 300 200) 500 300"

text \<open>
  The body of the hit branch of \<^verbatim>\<open>handleMouseDown\<close>, for the reverse iterator standing at
  index \<open>i\<close>: the three assignments through \<^verbatim>\<open>it\<close>, the copy, the erase of
  \<^verbatim>\<open>std::next(it).base()\<close> (the position \<open>i\<close> itself) and the \<^verbatim>\<open>push_back\<close>. The spec
  calls it beginDrag. The loop only runs it with \<open>i < length objs\<close>.
\<close>

definition erase_at :: "nat \<Rightarrow> 'a list \<Rightarrow> 'a list" where
  "erase_at i xs = take i xs @ drop (Suc i) xs"

definition beginDrag :: "DraggableObject list \<Rightarrow> nat \<Rightarrow> cint \<Rightarrow> cint \<Rightarrow> DraggableObject list" where
  "beginDrag objs i mouseX mouseY =
     (let o1 = (objs ! i)\<lparr>isDragging := True\<rparr>;
          o2 = o1\<lparr>dragOffsetX := mouseX - rect_x (rect o1)\<rparr>;
          o3 = o2\<lparr>dragOffsetY := mouseY - rect_y (rect o2)\<rparr>;
          objs1 = objs[i := o3];
          obj = objs1 ! i
      in erase_at i objs1 @ [obj])"

text \<open>
  The loop of \<^verbatim>\<open>handleMouseDown\<close> from \<^verbatim>\<open>rbegin()\<close> to \<^verbatim>\<open>rend()\<close>: the first argument
  counts the objects not yet visited, so the iterator stands at index \<open>i\<close> when it is
  \<open>Suc i\<close>. \<open>Some\<close> is the \<^verbatim>\<open>return\<close> inside the loop, \<open>None\<close> is the loop running out.
\<close>

fun mouseDown_loop :: "nat \<Rightarrow> DraggableObject list \<Rightarrow> cint \<Rightarrow> cint \<Rightarrow> DraggableObject list option" where
  "mouseDown_loop 0 objs mouseX mouseY = None"
| "mouseDown_loop (Suc i) objs mouseX mouseY =
     (if containsPoint (objs ! i) mouseX mouseY then Some (beginDrag objs i mouseX mouseY)
      else mouseDown_loop i objs mouseX mouseY)"

definition handleMouseDown :: "ObjectManager \<Rightarrow> SDL_MouseButtonEvent \<Rightarrow> ObjectManager" where
  "handleMouseDown m event =
     (let mouseX = ev_x event; mouseY = ev_y event
      in if ev_button event = SDL_BUTTON_LEFT then
           (case mouseDown_loop (length (objects m)) (objects m) mouseX mouseY of
              Some objs \<Rightarrow> m\<lparr>objects := objs\<rparr>
            | None \<Rightarrow> addObject m mouseX mouseY)
         else m)"

text \<open>The loop of \<^verbatim>\<open>handleMouseUp\<close>; the spec calls it endDrag.\<close>

definition endDrag :: "DraggableObject list \<Rightarrow> DraggableObject list" where
  "endDrag objs = map (\<lambda>obj. obj\<lparr>isDragging := False\<rparr>) objs"

definition handleMouseUp :: "ObjectManager \<Rightarrow> SDL_MouseButtonEvent \<Rightarrow> ObjectManager" where
  "handleMouseUp m event =
     (if ev_button event = SDL_BUTTON_LEFT then m\<lparr>objects := endDrag (objects m)\<rparr> else m)"

text \<open>The loop of \<^verbatim>\<open>handleMouseMotion\<close>; the spec calls it updateDrag.\<close>

definition updateDrag :: "DraggableObject list \<Rightarrow> cint \<Rightarrow> cint \<Rightarrow> DraggableObject list" where
  "updateDrag objs mouseX mouseY = map (\<lambda>obj. drag obj mouseX mouseY) objs"

definition handleMouseMotion :: "ObjectManager \<Rightarrow> SDL_MouseMotionEvent \<Rightarrow> ObjectManager" where
  "handleMouseMotion m event = m\<lparr>objects := updateDrag (objects m) (mot_x event) (mot_y event)\<rparr>"

subsection \<open>SDLApp\<close>

record SDLApp =
  objectManager :: ObjectManager
  running :: bool

text \<open>
  The state in which the constructor \<^verbatim>\<open>SDLApp()\<close> returns: the member \<^verbatim>\<open>objectManager\<close> is
  built first, \<^verbatim>\<open>running\<close> is true. Its three failure exits (\<^verbatim>\<open>SDL_Init\<close>, the window, the
  renderer) throw before any event is handled; no event is ever applied to such a state.
\<close>

definition SDLApp_new :: "rng_state \<Rightarrow> SDLApp" where
  "SDLApp_new seed = \<lparr>objectManager = ObjectManager_new seed, running = True\<rparr>"

text \<open>One turn of the \<^verbatim>\<open>while (SDL_PollEvent(&event))\<close> loop: the switch on the event type.\<close>

fun handleEvent :: "SDLApp \<Rightarrow> SDL_Event \<Rightarrow> SDLApp" where
  "handleEvent app SDL_QUIT = app\<lparr>running := False\<rparr>"
| "handleEvent app (SDL_MOUSEBUTTONDOWN b) =
     app\<lparr>objectManager := handleMouseDown (objectManager app) b\<rparr>"
| "handleEvent app (SDL_MOUSEBUTTONUP b) =
     app\<lparr>objectManager := handleMouseUp (objectManager app) b\<rparr>"
| "handleEvent app (SDL_MOUSEMOTION mo) =
     app\<lparr>objectManager := handleMouseMotion (objectManager app) mo\<rparr>"
| "handleEvent app (SDL_KEYDOWN keysym) =
     (if keysym = SDLK_ESCAPE then app\<lparr>running := False\<rparr> else app)"
| "handleEvent app SDL_OTHER = app"

text \<open>
  The events of a session in arrival order, each fully handled before the next is read.
  Events that were already queued behind a quit request are still handled by the poll
  loop, so nothing is cut off at \<^verbatim>\<open>running = false\<close>.
\<close>

definition handleEvents :: "SDLApp \<Rightarrow> SDL_Event list \<Rightarrow> SDLApp" where
  "handleEvents app evs = foldl handleEvent app evs"

text \<open>The objects after the events \<open>evs\<close>, in an application started with generator \<open>seed\<close>.\<close>

definition objects_after :: "rng_state \<Rightarrow> SDL_Event list \<Rightarrow> DraggableObject list" where
  "objects_after seed evs = objects (objectManager (handleEvents (SDLApp_new seed) evs))"

text \<open>
  The scan of the loop of \<^verbatim>\<open>handleMouseDown\<close> alone: the index at which the reverse
  iterator stops. The spec calls it hitTest.
\<close>

fun hitTest_from :: "nat \<Rightarrow> DraggableObject list \<Rightarrow> cint \<Rightarrow> cint \<Rightarrow> nat option" where
  "hitTest_from 0 objs px py = None"
| "hitTest_from (Suc i) objs px py =
     (if containsPoint (objs ! i) px py then Some i else hitTest_from i objs px py)"

definition hitTest :: "DraggableObject list \<Rightarrow> cint \<Rightarrow> cint \<Rightarrow> nat option" where
  "hitTest objs px py = hitTest_from (length objs) objs px py"

subsection \<open>Notions used in the properties\<close>

text \<open>Width and height of an object.\<close>

definition dims :: "DraggableObject \<Rightarrow> cint \<times> cint" where
  "dims obj = (rect_w (rect obj), rect_h (rect obj))"

text \<open>
  The rectangle lies fully inside the 800 x 600 canvas, read in the integers:
  \<open>0 \<le> x \<le> canvasWidth - w\<close> and \<open>0 \<le> y \<le> canvasHeight - h\<close>.
\<close>

definition inside_canvas :: "DraggableObject \<Rightarrow> bool" where
  "inside_canvas obj \<longleftrightarrow>
     0 \<le> sint (rect_x (rect obj)) \<and>
     sint (rect_x (rect obj)) \<le> sint WINDOW_WIDTH - sint (rect_w (rect obj)) \<and>
     0 \<le> sint (rect_y (rect obj)) \<and>
     sint (rect_y (rect obj)) \<le> sint WINDOW_HEIGHT - sint (rect_h (rect obj))"

definition count_dragging :: "DraggableObject list \<Rightarrow> nat" where
  "count_dragging objs = length (filter isDragging objs)"

text \<open>
  Presses and releases of the left button alternate, as one pointing device produces
  them: \<open>held\<close> says whether the button is down before the first event, and a left press
  may only come while it is up. Releases, other buttons and other events are free.
\<close>

fun press_release_alternate :: "bool \<Rightarrow> SDL_Event list \<Rightarrow> bool" where
  "press_release_alternate held [] = True"
| "press_release_alternate held (SDL_MOUSEBUTTONDOWN b # evs) =
     (if ev_button b = SDL_BUTTON_LEFT then \<not> held \<and> press_release_alternate True evs
      else press_release_alternate held evs)"
| "press_release_alternate held (SDL_MOUSEBUTTONUP b # evs) =
     (if ev_button b = SDL_BUTTON_LEFT then press_release_alternate False evs
      else press_release_alternate held evs)"
| "press_release_alternate held (ev # evs) = press_release_alternate held evs"

fun is_primary_press :: "SDL_Event \<Rightarrow> bool" where
  "is_primary_press (SDL_MOUSEBUTTONDOWN b) = (ev_button b = SDL_BUTTON_LEFT)"
| "is_primary_press ev = False"

text \<open>Every object is 80 x 80, and every object being dragged lies inside the canvas.\<close>

definition settled :: "DraggableObject list \<Rightarrow> bool" where
  "settled objs \<longleftrightarrow>
     (\<forall>obj \<in> set objs. dims obj = (80, 80) \<and> (isDragging obj \<longrightarrow> inside_canvas obj))"

section \<open>Auxiliary facts\<close>

lemma beginDrag_eq:
  "i < length objs \<Longrightarrow>
   beginDrag objs i mx my =
     take i objs @ drop (Suc i) objs @
       [(objs ! i)\<lparr>isDragging := True,
                  dragOffsetX := mx - rect_x (rect (objs ! i)),
                  dragOffsetY := my - rect_y (rect (objs ! i))\<rparr>]"
  by (simp add: beginDrag_def erase_at_def Let_def)

lemma length_beginDrag: "i < length objs \<Longrightarrow> length (beginDrag objs i mx my) = length objs"
  by (simp add: beginDrag_eq)

lemma hitTest_from_Some:
  "hitTest_from n objs px py = Some i \<longleftrightarrow>
     i < n \<and> containsPoint (objs ! i) px py \<and>
     (\<forall>j. i < j \<and> j < n \<longrightarrow> \<not> containsPoint (objs ! j) px py)"
proof (induction n)
  case 0
  show ?case by simp
next
  case (Suc n)
  show ?case
  proof (cases "containsPoint (objs ! n) px py")
    case True
    then show ?thesis
      by (auto simp: less_Suc_eq intro: linorder_neqE_nat)
  next
    case False
    then show ?thesis
      using Suc by (auto simp: less_Suc_eq)
  qed
qed

lemma hitTest_from_None:
  "hitTest_from n objs px py = None \<longleftrightarrow> (\<forall>j<n. \<not> containsPoint (objs ! j) px py)"
  by (induction n) (auto simp: less_Suc_eq)

lemma mouseDown_loop_hitTest:
  "mouseDown_loop n objs mx my =
     map_option (\<lambda>i. beginDrag objs i mx my) (hitTest_from n objs mx my)"
  by (induction n) auto

lemma hitTest_Some_less: "hitTest objs px py = Some i \<Longrightarrow> i < length objs"
  by (simp add: hitTest_def hitTest_from_Some)

lemma hitTest_None_iff:
  "hitTest objs px py = None \<longleftrightarrow> (\<forall>obj \<in> set objs. \<not> containsPoint obj px py)"
  by (simp add: hitTest_def hitTest_from_None all_set_conv_all_nth)

lemma handleMouseDown_cases:
  "handleMouseDown m event =
     (if ev_button event = SDL_BUTTON_LEFT then
        (case hitTest (objects m) (ev_x event) (ev_y event) of
           Some i \<Rightarrow> m\<lparr>objects := beginDrag (objects m) i (ev_x event) (ev_y event)\<rparr>
         | None \<Rightarrow> addObject m (ev_x event) (ev_y event))
      else m)"
  by (simp add: handleMouseDown_def mouseDown_loop_hitTest hitTest_def split: option.split)

lemma containsPoint_sint:
  "containsPoint obj px py \<longleftrightarrow>
     sint (rect_x (rect obj)) \<le> sint px \<and> sint px < sint (rect_x (rect obj) + rect_w (rect obj)) \<and>
     sint (rect_y (rect obj)) \<le> sint py \<and> sint py < sint (rect_y (rect obj) + rect_h (rect obj))"
  by (simp add: containsPoint_def word_sle_eq word_sless_alt)

lemma sint_add_no_overflow:
  fixes a b :: cint
  assumes "- (2 ^ 31) \<le> sint a + sint b" "sint a + sint b < 2 ^ 31"
  shows "sint (a + b) = sint a + sint b"
  using assms by (simp add: sint_word_ariths signed_take_bit_int_eq_self)

lemma addObject_objects:
  "objects (addObject m px py) =
     objects m @ [\<lparr>rect = \<lparr>rect_x = px, rect_y = py, rect_w = 80, rect_h = 80\<rparr>,
                   color = \<lparr>col_r = shd (rng m), col_g = shd (stl (rng m)),
                            col_b = shd (stl (stl (rng m))), col_a = 255\<rparr>,
                   isDragging = False, dragOffsetX = 0, dragOffsetY = 0\<rparr>]"
  by (simp add: addObject_def generateRandomColor_def colorDist_def DraggableObject_new_def)

lemma addObject_rng: "rng (addObject m px py) = stl (stl (stl (rng m)))"
  by (simp add: addObject_def generateRandomColor_def colorDist_def)

lemma hitTest_beginDrag:
  assumes "i < length objs" "containsPoint (objs ! i) mx my"
  shows "hitTest (beginDrag objs i mx my) mx my = Some (length objs - 1)"
proof -
  let ?g = "(objs ! i)\<lparr>isDragging := True,
                  dragOffsetX := mx - rect_x (rect (objs ! i)),
                  dragOffsetY := my - rect_y (rect (objs ! i))\<rparr>"
  have len: "length (beginDrag objs i mx my) = Suc (length objs - 1)"
    using assms(1) by (simp add: length_beginDrag)
  have "beginDrag objs i mx my ! (length objs - 1) = ?g"
    using assms(1) by (simp add: beginDrag_eq nth_append)
  moreover have "containsPoint ?g mx my"
    using assms(2) by (simp add: containsPoint_def)
  ultimately show ?thesis
    unfolding hitTest_def len by simp
qed

lemma drag_not_dragging: "\<not> isDragging obj \<Longrightarrow> drag obj mx my = obj"
  by (simp add: drag_def)

lemma dims_drag: "dims (drag obj mx my) = dims obj"
  by (simp add: drag_def dims_def Let_def)

lemma isDragging_drag: "isDragging (drag obj mx my) = isDragging obj"
  by (simp add: drag_def Let_def)

lemma map_dims_updateDrag: "map dims (updateDrag objs mx my) = map dims objs"
  by (simp add: updateDrag_def dims_drag)

lemma map_dims_endDrag: "map dims (endDrag objs) = map dims objs"
  by (simp add: endDrag_def dims_def)

lemma map_dims_beginDrag:
  "i < length objs \<Longrightarrow>
   map dims (beginDrag objs i mx my) = erase_at i (map dims objs) @ [map dims objs ! i]"
  by (simp add: beginDrag_eq erase_at_def dims_def take_map drop_map)

lemma map_dims_addObject:
  "map dims (objects (addObject m px py)) = map dims (objects m) @ [(80, 80)]"
  by (simp add: addObject_objects dims_def)

lemma map_dims_handleMouseDown:
  "map dims (objects (handleMouseDown m b)) =
     (if ev_button b = SDL_BUTTON_LEFT then
        (case hitTest (objects m) (ev_x b) (ev_y b) of
           Some i \<Rightarrow> erase_at i (map dims (objects m)) @ [map dims (objects m) ! i]
         | None \<Rightarrow> map dims (objects m) @ [(80, 80)])
      else map dims (objects m))"
  by (auto simp: handleMouseDown_cases map_dims_addObject map_dims_beginDrag
      dest: hitTest_Some_less split: option.split)

lemma set_erase_at_subset: "set (erase_at i xs) \<subseteq> set xs"
  by (auto simp: erase_at_def dest: in_set_takeD in_set_dropD)

lemma handleEvent_dims_subset:
  "set (map dims (objects (objectManager (handleEvent app ev))))
     \<subseteq> insert (80, 80) (set (map dims (objects (objectManager app))))"
proof (cases ev)
  case (SDL_MOUSEBUTTONDOWN b)
  show ?thesis
  proof (cases "hitTest (objects (objectManager app)) (ev_x b) (ev_y b)")
    case None
    then show ?thesis
      unfolding SDL_MOUSEBUTTONDOWN by (auto simp: map_dims_handleMouseDown simp del: set_map)
  next
    case (Some i)
    then have "i < length (objects (objectManager app))"
      by (rule hitTest_Some_less)
    then have "map dims (objects (objectManager app)) ! i \<in> set (map dims (objects (objectManager app)))"
      by (intro nth_mem) simp
    with Some show ?thesis
      unfolding SDL_MOUSEBUTTONDOWN
      using set_erase_at_subset [of i "map dims (objects (objectManager app))"]
      by (auto simp: map_dims_handleMouseDown simp del: set_map)
  qed
next
  case (SDL_MOUSEBUTTONUP b)
  then show ?thesis
    by (auto simp: handleMouseUp_def map_dims_endDrag simp del: set_map)
next
  case (SDL_MOUSEMOTION mo)
  then show ?thesis
    by (auto simp: handleMouseMotion_def map_dims_updateDrag simp del: set_map)
qed auto

lemma handleEvents_snoc: "handleEvents app (evs @ [ev]) = handleEvent (handleEvents app evs) ev"
  by (simp add: handleEvents_def)

lemma handleEvents_Cons: "handleEvents app (ev # evs) = handleEvents (handleEvent app ev) evs"
  by (simp add: handleEvents_def)

lemma handleEvents_append:
  "handleEvents app (evs @ evs') = handleEvents (handleEvents app evs) evs'"
  by (simp add: handleEvents_def)

lemma ObjectManager_new_objects:
  "objects (ObjectManager_new seed) =
     [DraggableObject_new 100 100 80 80
        \<lparr>col_r = shd seed, col_g = shd (stl seed), col_b = shd (stl (stl seed)), col_a = 255\<rparr>,
      DraggableObject_new 300 200 80 80
        \<lparr>col_r = shd (stl (stl (stl seed))), col_g = shd (stl (stl (stl (stl seed)))),
         col_b = shd (stl (stl (stl (stl (stl seed))))), col_a = 255\<rparr>,
      DraggableObject_new 500 300 80 80
        \<lparr>col_r = shd (stl (stl (stl (stl (stl (stl seed)))))),
         col_g = shd (stl (stl (stl (stl (stl (stl (stl seed))))))),
         col_b = shd (stl (stl (stl (stl (stl (stl (stl (stl seed)))))))), col_a = 255\<rparr>]"
  by (simp add: ObjectManager_new_def addObject_objects addObject_rng DraggableObject_new_def)

lemma dims_after: "set (map dims (objects_after seed evs)) \<subseteq> {(80, 80)}"
proof (induction evs rule: rev_induct)
  case Nil
  show ?case
    by (simp add: objects_after_def handleEvents_def SDLApp_new_def ObjectManager_new_objects
        DraggableObject_new_def dims_def)
next
  case (snoc ev evs)
  then show ?case
    using handleEvent_dims_subset [of "handleEvents (SDLApp_new seed) evs" ev]
    unfolding objects_after_def handleEvents_snoc by blast
qed

lemma length_handleMouseDown:
  "length (objects (handleMouseDown m b)) =
     length (objects m) +
       (if ev_button b = SDL_BUTTON_LEFT \<and> hitTest (objects m) (ev_x b) (ev_y b) = None
        then 1 else 0)"
  by (auto simp: handleMouseDown_cases addObject_objects length_beginDrag
      dest: hitTest_Some_less split: option.split)

lemma length_handleEvent:
  "length (objects (objectManager app)) \<le> length (objects (objectManager (handleEvent app ev)))"
  by (cases ev) (simp_all add: length_handleMouseDown handleMouseUp_def endDrag_def
      handleMouseMotion_def updateDrag_def)

lemma length_objects_after: "3 \<le> length (objects_after seed evs)"
proof (induction evs rule: rev_induct)
  case Nil
  show ?case
    by (simp add: objects_after_def handleEvents_def SDLApp_new_def ObjectManager_new_objects)
next
  case (snoc ev evs)
  then show ?case
    using length_handleEvent [of "handleEvents (SDLApp_new seed) evs" ev]
    unfolding objects_after_def handleEvents_snoc by linarith
qed

lemma std_clamp_range:
  "0 \<le>s hi \<Longrightarrow> 0 \<le> sint (std_clamp v 0 hi) \<and> sint (std_clamp v 0 hi) \<le> sint hi"
  by (auto simp: std_clamp_def word_sle_eq word_sless_alt)

lemma drag_dragging:
  "isDragging obj \<Longrightarrow>
   drag obj mx my =
     obj\<lparr>rect := (rect obj)
        \<lparr>rect_x := std_clamp (mx - dragOffsetX obj) 0 (WINDOW_WIDTH - rect_w (rect obj)),
         rect_y := std_clamp (my - dragOffsetY obj) 0 (WINDOW_HEIGHT - rect_h (rect obj))\<rparr>\<rparr>"
  by (simp add: drag_def Let_def)

lemma drag_inside:
  assumes "isDragging obj" "dims obj = (80, 80)"
  shows "inside_canvas (drag obj mx my)"
proof -
  have wh: "rect_w (rect obj) = 80" "rect_h (rect obj) = 80"
    using assms(2) by (simp_all add: dims_def)
  have "(0::cint) \<le>s 720" "(0::cint) \<le>s 520"
    by (simp_all add: word_sle_eq)
  then show ?thesis
    using std_clamp_range [of 720 "mx - dragOffsetX obj"]
      std_clamp_range [of 520 "my - dragOffsetY obj"]
    by (simp add: drag_dragging [OF assms(1)] inside_canvas_def wh
        WINDOW_WIDTH_def WINDOW_HEIGHT_def)
qed

lemma count_dragging_endDrag: "count_dragging (endDrag objs) = 0"
  by (simp add: count_dragging_def endDrag_def filter_map comp_def)

lemma count_dragging_updateDrag: "count_dragging (updateDrag objs mx my) = count_dragging objs"
  by (simp add: count_dragging_def updateDrag_def filter_map comp_def isDragging_drag)

lemma count_dragging_addObject:
  "count_dragging (objects (addObject m px py)) = count_dragging (objects m)"
  by (simp add: count_dragging_def addObject_objects)

lemma count_dragging_beginDrag:
  assumes "i < length objs"
  shows "count_dragging (beginDrag objs i mx my) \<le> Suc (count_dragging objs)"
proof -
  have "objs = take i objs @ objs ! i # drop (Suc i) objs"
    using assms by (rule id_take_nth_drop)
  then have "count_dragging objs =
      length (filter isDragging (take i objs)) +
      length (filter isDragging [objs ! i]) +
      length (filter isDragging (drop (Suc i) objs))"
    unfolding count_dragging_def by (metis append_Cons append_Nil filter_append length_append add.assoc)
  then show ?thesis
    using assms by (simp add: count_dragging_def beginDrag_eq)
qed

lemma count_dragging_handleMouseDown:
  "count_dragging (objects (handleMouseDown m b)) \<le>
     (if ev_button b = SDL_BUTTON_LEFT then Suc (count_dragging (objects m))
      else count_dragging (objects m))"
  by (auto simp: handleMouseDown_cases count_dragging_addObject
      dest: hitTest_Some_less intro: count_dragging_beginDrag split: option.split)

lemma alternate_step:
  assumes "press_release_alternate held (ev # evs)"
    and "count_dragging (objects (objectManager app)) \<le> (if held then 1 else 0)"
  shows "\<exists>held'. press_release_alternate held' evs \<and>
           count_dragging (objects (objectManager (handleEvent app ev))) \<le> (if held' then 1 else 0)"
proof (cases ev)
  case (SDL_MOUSEBUTTONDOWN b)
  show ?thesis
  proof (cases "ev_button b = SDL_BUTTON_LEFT")
    case True
    with assms SDL_MOUSEBUTTONDOWN have nh: "\<not> held" and alt: "press_release_alternate True evs"
      by simp_all
    from nh assms(2) have "count_dragging (objects (objectManager app)) = 0"
      by simp
    then have "count_dragging (objects (handleMouseDown (objectManager app) b)) \<le> 1"
      using count_dragging_handleMouseDown [of "objectManager app" b] True by simp
    with alt show ?thesis
      unfolding SDL_MOUSEBUTTONDOWN by (intro exI [of _ True]) simp
  next
    case False
    with assms SDL_MOUSEBUTTONDOWN have "press_release_alternate held evs"
      by simp
    moreover have "handleEvent app ev = app"
      using False SDL_MOUSEBUTTONDOWN by (simp add: handleMouseDown_def)
    ultimately show ?thesis
      using assms(2) by (intro exI [of _ held]) simp
  qed
next
  case (SDL_MOUSEBUTTONUP b)
  show ?thesis
  proof (cases "ev_button b = SDL_BUTTON_LEFT")
    case True
    with assms SDL_MOUSEBUTTONUP have "press_release_alternate False evs"
      by simp
    moreover have "count_dragging (objects (handleMouseUp (objectManager app) b)) = 0"
      using True by (simp add: handleMouseUp_def count_dragging_endDrag)
    ultimately show ?thesis
      unfolding SDL_MOUSEBUTTONUP by (intro exI [of _ False]) simp
  next
    case False
    with assms SDL_MOUSEBUTTONUP have "press_release_alternate held evs"
      by simp
    moreover have "handleEvent app ev = app"
      using False SDL_MOUSEBUTTONUP by (simp add: handleMouseUp_def)
    ultimately show ?thesis
      using assms(2) by (intro exI [of _ held]) simp
  qed
next
  case (SDL_MOUSEMOTION mo)
  with assms show ?thesis
    by (intro exI [of _ held])
      (simp add: handleMouseMotion_def count_dragging_updateDrag)
next
  case SDL_QUIT
  with assms show ?thesis
    by (intro exI [of _ held]) simp
next
  case (SDL_KEYDOWN k)
  have "objectManager (handleEvent app (SDL_KEYDOWN k)) = objectManager app"
    by simp
  with assms SDL_KEYDOWN show ?thesis
    by (intro exI [of _ held]) (simp only: press_release_alternate.simps simp_thms)
next
  case SDL_OTHER
  with assms show ?thesis
    by (intro exI [of _ held]) simp
qed

lemma alternate_invariant:
  "press_release_alternate held evs \<Longrightarrow>
   count_dragging (objects (objectManager app)) \<le> (if held then 1 else 0) \<Longrightarrow>
   count_dragging (objects (objectManager (handleEvents app evs))) \<le> 1"
proof (induction evs arbitrary: app held)
  case Nil
  then show ?case
    by (simp add: handleEvents_def split: if_splits)
next
  case (Cons ev evs)
  from alternate_step [OF Cons.prems] obtain held' where
    "press_release_alternate held' evs"
    "count_dragging (objects (objectManager (handleEvent app ev))) \<le> (if held' then 1 else 0)"
    by blast
  then show ?case
    unfolding handleEvents_Cons by (rule Cons.IH)
qed

lemma press_release_alternate_take:
  "press_release_alternate held evs \<Longrightarrow> press_release_alternate held (take n evs)"
proof (induction evs arbitrary: n held)
  case Nil
  then show ?case by simp
next
  case (Cons ev evs)
  show ?case
  proof (cases n)
    case 0
    then show ?thesis by simp
  next
    case (Suc k)
    with Cons show ?thesis
      by (cases ev) (auto split: if_splits)
  qed
qed

lemma settled_updateDrag:
  assumes "\<forall>obj \<in> set objs. dims obj = (80, 80)"
  shows "settled (updateDrag objs mx my)"
  unfolding settled_def updateDrag_def
proof
  fix obj' assume "obj' \<in> set (map (\<lambda>obj. drag obj mx my) objs)"
  then obtain obj where obj: "obj \<in> set objs" "obj' = drag obj mx my"
    by auto
  with assms have d: "dims obj = (80, 80)"
    by blast
  show "dims obj' = (80, 80) \<and> (isDragging obj' \<longrightarrow> inside_canvas obj')"
    using d drag_inside [of obj mx my] by (simp add: obj(2) dims_drag isDragging_drag)
qed

lemma settled_endDrag:
  "\<forall>obj \<in> set objs. dims obj = (80, 80) \<Longrightarrow> settled (endDrag objs)"
  by (auto simp: settled_def endDrag_def dims_def)

lemma settled_handleEvent:
  assumes "settled (objects (objectManager app))" "\<not> is_primary_press ev"
  shows "settled (objects (objectManager (handleEvent app ev)))"
proof -
  have d: "\<forall>obj \<in> set (objects (objectManager app)). dims obj = (80, 80)"
    using assms(1) by (simp add: settled_def)
  show ?thesis
  proof (cases ev)
    case (SDL_MOUSEBUTTONDOWN b)
    with assms show ?thesis
      by (simp add: handleMouseDown_def)
  next
    case (SDL_MOUSEBUTTONUP b)
    with assms(1) settled_endDrag [OF d] show ?thesis
      by (simp add: handleMouseUp_def)
  next
    case (SDL_MOUSEMOTION mo)
    with settled_updateDrag [OF d] show ?thesis
      by (simp add: handleMouseMotion_def)
  qed (use assms in auto)
qed

lemma settled_handleEvents:
  "settled (objects (objectManager app)) \<Longrightarrow> list_all (\<lambda>ev. \<not> is_primary_press ev) evs \<Longrightarrow>
   settled (objects (objectManager (handleEvents app evs)))"
proof (induction evs arbitrary: app)
  case Nil
  then show ?case by (simp add: handleEvents_def)
next
  case (Cons ev evs)
  then show ?case
    by (simp add: handleEvents_Cons settled_handleEvent)
qed

lemmas run_defs = objects_after_def handleEvents_def SDLApp_new_def ObjectManager_new_objects
  DraggableObject_new_def handleMouseDown_def handleMouseUp_def handleMouseMotion_def
  addObject_objects addObject_rng beginDrag_def erase_at_def endDrag_def updateDrag_def
  drag_def std_clamp_def containsPoint_def SDL_BUTTON_LEFT_def WINDOW_WIDTH_def WINDOW_HEIGHT_def
  word_sle_eq word_sless_alt Let_def

section \<open>Properties\<close>

subsection \<open>Clamping of dragged objects\<close>

text \<open>
  Claim C1, as amended. In every state reached from the initial registry by any events, a
  motion event keeps the number of objects, gives every object whose \<open>isDragging\<close> is set
  the position \<open>clamp(mouse - dragOffset, 0, 800 - 80)\<close>, \<open>clamp(mouse - dragOffset, 0, 600 - 80)\<close>,
  which lies inside the canvas (\<open>0 \<le> x \<le> 800 - w\<close>, \<open>0 \<le> y \<le> 600 - h\<close>), and leaves
  every object whose \<open>isDragging\<close> is not set exactly as it was. The bound is promised for
  the dragged objects only.
\<close>

theorem updateDrag_clamps_dragged:
  assumes "i < length (objects_after seed evs)"
  shows "length (objects_after seed (evs @ [SDL_MOUSEMOTION mo])) = length (objects_after seed evs) \<and>
    (isDragging (objects_after seed evs ! i) \<longrightarrow>
       objects_after seed (evs @ [SDL_MOUSEMOTION mo]) ! i =
         (objects_after seed evs ! i)\<lparr>rect := (rect (objects_after seed evs ! i))
           \<lparr>rect_x := std_clamp (mot_x mo - dragOffsetX (objects_after seed evs ! i)) 0
                         (WINDOW_WIDTH - 80),
            rect_y := std_clamp (mot_y mo - dragOffsetY (objects_after seed evs ! i)) 0
                         (WINDOW_HEIGHT - 80)\<rparr>\<rparr> \<and>
       inside_canvas (objects_after seed (evs @ [SDL_MOUSEMOTION mo]) ! i)) \<and>
    (\<not> isDragging (objects_after seed evs ! i) \<longrightarrow>
       objects_after seed (evs @ [SDL_MOUSEMOTION mo]) ! i = objects_after seed evs ! i)"
proof -
  let ?objs = "objects_after seed evs"
  have step: "objects_after seed (evs @ [SDL_MOUSEMOTION mo]) = updateDrag ?objs (mot_x mo) (mot_y mo)"
    by (simp add: objects_after_def handleEvents_snoc handleMouseMotion_def)
  have nth: "updateDrag ?objs (mot_x mo) (mot_y mo) ! i = drag (?objs ! i) (mot_x mo) (mot_y mo)"
    using assms by (simp add: updateDrag_def)
  have "?objs ! i \<in> set ?objs"
    using assms by simp
  then have d: "dims (?objs ! i) = (80, 80)"
    using dims_after [of seed evs] by auto
  then have wh: "rect_w (rect (?objs ! i)) = 80" "rect_h (rect (?objs ! i)) = 80"
    by (simp_all add: dims_def)
  have len: "length (updateDrag ?objs (mot_x mo) (mot_y mo)) = length ?objs"
    by (simp add: updateDrag_def)
  show ?thesis
  proof (cases "isDragging (?objs ! i)")
    case True
    then show ?thesis
      using drag_inside [OF True d, of "mot_x mo" "mot_y mo"]
      by (simp add: step nth len drag_dragging wh)
  next
    case False
    then show ?thesis
      by (simp add: step nth len drag_not_dragging)
  qed
qed

text \<open>
  A left press on the first initial object at (110, 110) grabs it and moves it to the end
  (index 2); a motion to (900, 50) then puts it at \<open>x = clamp(890, 0, 720) = 720\<close>,
  \<open>y = 40\<close>, while the object at index 0 stays at (300, 200).
\<close>

theorem updateDrag_clamps_dragged_witness:
  "2 < length (objects_after (sconst 0)
         [SDL_MOUSEBUTTONDOWN \<lparr>ev_button = 1, ev_x = 110, ev_y = 110\<rparr>]) \<and>
   isDragging (objects_after (sconst 0)
         [SDL_MOUSEBUTTONDOWN \<lparr>ev_button = 1, ev_x = 110, ev_y = 110\<rparr>] ! 2) \<and>
   rect (objects_after (sconst 0)
         ([SDL_MOUSEBUTTONDOWN \<lparr>ev_button = 1, ev_x = 110, ev_y = 110\<rparr>] @
          [SDL_MOUSEMOTION \<lparr>mot_x = 900, mot_y = 50\<rparr>]) ! 2) =
     \<lparr>rect_x = 720, rect_y = 40, rect_w = 80, rect_h = 80\<rparr> \<and>
   inside_canvas (objects_after (sconst 0)
         ([SDL_MOUSEBUTTONDOWN \<lparr>ev_button = 1, ev_x = 110, ev_y = 110\<rparr>] @
          [SDL_MOUSEMOTION \<lparr>mot_x = 900, mot_y = 50\<rparr>]) ! 2)"
proof -
  let ?evs = "[SDL_MOUSEBUTTONDOWN \<lparr>ev_button = 1, ev_x = 110, ev_y = 110\<rparr>]"
  have h: "2 < length (objects_after (sconst 0) ?evs)"
    by (simp add: run_defs)
  have g: "isDragging (objects_after (sconst 0) ?evs ! 2)"
    by (simp add: run_defs)
  have r: "rect (objects_after (sconst 0) (?evs @ [SDL_MOUSEMOTION \<lparr>mot_x = 900, mot_y = 50\<rparr>]) ! 2) =
      \<lparr>rect_x = 720, rect_y = 40, rect_w = 80, rect_h = 80\<rparr>"
    by (simp add: run_defs)
  from updateDrag_clamps_dragged [OF h, of "\<lparr>mot_x = 900, mot_y = 50\<rparr>"] g
  have "inside_canvas (objects_after (sconst 0)
      (?evs @ [SDL_MOUSEMOTION \<lparr>mot_x = 900, mot_y = 50\<rparr>]) ! 2)"
    by blast
  with h g r show ?thesis
    by simp
qed

text \<open>
  The bound does not hold for every object. A left press at (750, 550) hits none of the
  three initial objects and adds an object there, unclamped; after the release and a
  motion event that object is not being dragged and still stands at \<open>x = 750\<close>, beyond
  \<open>800 - 80 = 720\<close>.
\<close>

theorem updateDrag_untouched_outside_counterexample:
  "\<not> isDragging (objects_after (sconst 0)
        [SDL_MOUSEBUTTONDOWN \<lparr>ev_button = 1, ev_x = 750, ev_y = 550\<rparr>,
         SDL_MOUSEBUTTONUP \<lparr>ev_button = 1, ev_x = 750, ev_y = 550\<rparr>,
         SDL_MOUSEMOTION \<lparr>mot_x = 10, mot_y = 10\<rparr>] ! 3) \<and>
   rect (objects_after (sconst 0)
        [SDL_MOUSEBUTTONDOWN \<lparr>ev_button = 1, ev_x = 750, ev_y = 550\<rparr>,
         SDL_MOUSEBUTTONUP \<lparr>ev_button = 1, ev_x = 750, ev_y = 550\<rparr>,
         SDL_MOUSEMOTION \<lparr>mot_x = 10, mot_y = 10\<rparr>] ! 3) =
     \<lparr>rect_x = 750, rect_y = 550, rect_w = 80, rect_h = 80\<rparr> \<and>
   \<not> inside_canvas (objects_after (sconst 0)
        [SDL_MOUSEBUTTONDOWN \<lparr>ev_button = 1, ev_x = 750, ev_y = 550\<rparr>,
         SDL_MOUSEBUTTONUP \<lparr>ev_button = 1, ev_x = 750, ev_y = 550\<rparr>,
         SDL_MOUSEMOTION \<lparr>mot_x = 10, mot_y = 10\<rparr>] ! 3)"
  by (simp add: run_defs inside_canvas_def)

subsection \<open>At most one object is dragged\<close>

text \<open>
  Claim C2, as amended. For every sequence of events in which the presses and releases of
  the left button alternate (no left press while the left button is still down), at most
  one object of the registry has \<open>isDragging\<close> set, after every prefix of the sequence.
\<close>

theorem at_most_one_dragging:
  assumes "press_release_alternate False evs"
  shows "length (filter isDragging (objects_after seed (take n evs))) \<le> 1"
proof -
  have "press_release_alternate False (take n evs)"
    using assms by (rule press_release_alternate_take)
  moreover have "count_dragging (objects (objectManager (SDLApp_new seed))) = 0"
    by (simp add: SDLApp_new_def ObjectManager_new_objects DraggableObject_new_def count_dragging_def)
  ultimately show ?thesis
    using alternate_invariant [of False "take n evs" "SDLApp_new seed"]
    by (simp add: objects_after_def count_dragging_def)
qed

theorem at_most_one_dragging_witness:
  "press_release_alternate False
     [SDL_MOUSEBUTTONDOWN \<lparr>ev_button = 1, ev_x = 110, ev_y = 110\<rparr>,
      SDL_MOUSEMOTION \<lparr>mot_x = 200, mot_y = 200\<rparr>,
      SDL_MOUSEBUTTONUP \<lparr>ev_button = 1, ev_x = 200, ev_y = 200\<rparr>,
      SDL_MOUSEBUTTONDOWN \<lparr>ev_button = 1, ev_x = 310, ev_y = 210\<rparr>] \<and>
   length (filter isDragging (objects_after (sconst 0) (take 4
     [SDL_MOUSEBUTTONDOWN \<lparr>ev_button = 1, ev_x = 110, ev_y = 110\<rparr>,
      SDL_MOUSEMOTION \<lparr>mot_x = 200, mot_y = 200\<rparr>,
      SDL_MOUSEBUTTONUP \<lparr>ev_button = 1, ev_x = 200, ev_y = 200\<rparr>,
      SDL_MOUSEBUTTONDOWN \<lparr>ev_button = 1, ev_x = 310, ev_y = 210\<rparr>]))) \<le> 1"
proof -
  let ?evs = "[SDL_MOUSEBUTTONDOWN \<lparr>ev_button = 1, ev_x = 110, ev_y = 110\<rparr>,
      SDL_MOUSEMOTION \<lparr>mot_x = 200, mot_y = 200\<rparr>,
      SDL_MOUSEBUTTONUP \<lparr>ev_button = 1, ev_x = 200, ev_y = 200\<rparr>,
      SDL_MOUSEBUTTONDOWN \<lparr>ev_button = 1, ev_x = 310, ev_y = 210\<rparr>]"
  have h: "press_release_alternate False ?evs"
    by (simp add: SDL_BUTTON_LEFT_def)
  from h at_most_one_dragging [OF h, of "sconst 0" 4] show ?thesis
    by (rule conjI)
qed

text \<open>
  Two left presses with no release between them leave two objects with \<open>isDragging\<close> set:
  the first grabs the object at (100, 100), the second the object at (300, 200), and
  nothing in \<^verbatim>\<open>handleMouseDown\<close> clears the flag of the first.
\<close>

theorem two_presses_two_dragging_counterexample:
  "map isDragging (objects_after (sconst 0)
        [SDL_MOUSEBUTTONDOWN \<lparr>ev_button = 1, ev_x = 110, ev_y = 110\<rparr>,
         SDL_MOUSEBUTTONDOWN \<lparr>ev_button = 1, ev_x = 310, ev_y = 210\<rparr>]) = [False, True, True] \<and>
   \<not> length (filter isDragging (objects_after (sconst 0)
        [SDL_MOUSEBUTTONDOWN \<lparr>ev_button = 1, ev_x = 110, ev_y = 110\<rparr>,
         SDL_MOUSEBUTTONDOWN \<lparr>ev_button = 1, ev_x = 310, ev_y = 210\<rparr>])) \<le> 1"
  by (simp add: run_defs)

subsection \<open>Dragged objects stay inside the canvas\<close>

text \<open>
  Claim C3, as amended. In every state reached by any events, then a motion event, then
  any events among which there is no left press, every object whose \<open>isDragging\<close> is set
  lies fully inside the canvas: \<open>0 \<le> x \<le> 800 - w\<close> and \<open>0 \<le> y \<le> 600 - h\<close>. So a
  dragged object is inside the canvas from the first motion event of its drag on;
  nothing is promised between the press that grabs it and that motion event.
\<close>

theorem dragging_inside_after_motion:
  assumes "list_all (\<lambda>ev. \<not> is_primary_press ev) evs'"
  shows "\<forall>obj \<in> set (objects_after seed (evs @ SDL_MOUSEMOTION mo # evs')).
           isDragging obj \<longrightarrow> inside_canvas obj"
proof -
  let ?app = "handleEvents (SDLApp_new seed) evs"
  have "\<forall>obj \<in> set (objects (objectManager ?app)). dims obj = (80, 80)"
    using dims_after [of seed evs] by (auto simp: objects_after_def)
  then have "settled (objects (objectManager (handleEvent ?app (SDL_MOUSEMOTION mo))))"
    by (simp add: handleMouseMotion_def settled_updateDrag)
  then have "settled (objects (objectManager
      (handleEvents (handleEvent ?app (SDL_MOUSEMOTION mo)) evs')))"
    using assms by (rule settled_handleEvents)
  then have "settled (objects_after seed (evs @ SDL_MOUSEMOTION mo # evs'))"
    by (simp add: objects_after_def handleEvents_append handleEvents_Cons)
  then show ?thesis
    by (simp add: settled_def)
qed

theorem dragging_inside_after_motion_witness:
  "list_all (\<lambda>ev. \<not> is_primary_press ev) [SDL_KEYDOWN 97] \<and>
   isDragging (objects_after (sconst 0)
     ([SDL_MOUSEBUTTONDOWN \<lparr>ev_button = 1, ev_x = 110, ev_y = 110\<rparr>] @
      SDL_MOUSEMOTION \<lparr>mot_x = 900, mot_y = 50\<rparr> # [SDL_KEYDOWN 97]) ! 2) \<and>
   inside_canvas (objects_after (sconst 0)
     ([SDL_MOUSEBUTTONDOWN \<lparr>ev_button = 1, ev_x = 110, ev_y = 110\<rparr>] @
      SDL_MOUSEMOTION \<lparr>mot_x = 900, mot_y = 50\<rparr> # [SDL_KEYDOWN 97]) ! 2)"
proof -
  let ?objs = "objects_after (sconst 0)
     ([SDL_MOUSEBUTTONDOWN \<lparr>ev_button = 1, ev_x = 110, ev_y = 110\<rparr>] @
      SDL_MOUSEMOTION \<lparr>mot_x = 900, mot_y = 50\<rparr> # [SDL_KEYDOWN 97])"
  have h: "list_all (\<lambda>ev. \<not> is_primary_press ev) [SDL_KEYDOWN 97]"
    by simp
  have m: "?objs ! 2 \<in> set ?objs"
    by (rule nth_mem) (simp add: run_defs SDLK_ESCAPE_def)
  have g: "isDragging (?objs ! 2)"
    by (simp add: run_defs SDLK_ESCAPE_def)
  from dragging_inside_after_motion [OF h, rule_format, OF m g] h g show ?thesis
    by simp
qed

text \<open>
  Right after the press that grabs it, a dragged object can stand outside the canvas. A
  left press at (750, 550) adds an object there; after the release, a left press at
  (760, 560) hits that object and sets its \<open>isDragging\<close>, and its \<open>x\<close> is still 750,
  beyond \<open>800 - 80 = 720\<close>.
\<close>

theorem grabbed_outside_canvas_counterexample:
  "isDragging (objects_after (sconst 0)
        [SDL_MOUSEBUTTONDOWN \<lparr>ev_button = 1, ev_x = 750, ev_y = 550\<rparr>,
         SDL_MOUSEBUTTONUP \<lparr>ev_button = 1, ev_x = 750, ev_y = 550\<rparr>,
         SDL_MOUSEBUTTONDOWN \<lparr>ev_button = 1, ev_x = 760, ev_y = 560\<rparr>] ! 3) \<and>
   rect (objects_after (sconst 0)
        [SDL_MOUSEBUTTONDOWN \<lparr>ev_button = 1, ev_x = 750, ev_y = 550\<rparr>,
         SDL_MOUSEBUTTONUP \<lparr>ev_button = 1, ev_x = 750, ev_y = 550\<rparr>,
         SDL_MOUSEBUTTONDOWN \<lparr>ev_button = 1, ev_x = 760, ev_y = 560\<rparr>] ! 3) =
     \<lparr>rect_x = 750, rect_y = 550, rect_w = 80, rect_h = 80\<rparr> \<and>
   \<not> inside_canvas (objects_after (sconst 0)
        [SDL_MOUSEBUTTONDOWN \<lparr>ev_button = 1, ev_x = 750, ev_y = 550\<rparr>,
         SDL_MOUSEBUTTONUP \<lparr>ev_button = 1, ev_x = 750, ev_y = 550\<rparr>,
         SDL_MOUSEBUTTONDOWN \<lparr>ev_button = 1, ev_x = 760, ev_y = 560\<rparr>] ! 3)"
  by (simp add: run_defs inside_canvas_def)

subsection \<open>Hit test\<close>

text \<open>
  Claim C4. The scan of \<^verbatim>\<open>handleMouseDown\<close> (hitTest) goes from the last object of the
  sequence back to the first and stops at the first object that contains the point: it
  returns index \<open>i\<close> exactly when object \<open>i\<close> contains the point and no later object does,
  and it returns none exactly when no object contains the point. The containment test is
  \<^verbatim>\<open>x >= rect.x && x < rect.x + rect.w\<close> and the same for \<open>y\<close>; whenever \<open>rect.x + rect.w\<close> and
  \<open>rect.y + rect.h\<close> are representable, that is the half-open test \<open>x \<in> [rect.x, rect.x + w)\<close>,
  \<open>y \<in> [rect.y, rect.y + h)\<close> in the integers. The loop of \<^verbatim>\<open>handleMouseDown\<close> grabs the object
  at the index of the scan. With A added at (0, 0) and then B at (40, 40), both 80 x 80,
  the scan at (60, 60) returns 1, the index of B.
\<close>

theorem hitTest_topmost:
  "(hitTest objs px py = Some i \<longleftrightarrow>
      i < length objs \<and> containsPoint (objs ! i) px py \<and>
      (\<forall>j. i < j \<and> j < length objs \<longrightarrow> \<not> containsPoint (objs ! j) px py)) \<and>
   (hitTest objs px py = None \<longleftrightarrow> (\<forall>obj \<in> set objs. \<not> containsPoint obj px py)) \<and>
   (containsPoint obj px py \<longleftrightarrow>
      rect_x (rect obj) \<le>s px \<and> px <s rect_x (rect obj) + rect_w (rect obj) \<and>
      rect_y (rect obj) \<le>s py \<and> py <s rect_y (rect obj) + rect_h (rect obj)) \<and>
   (sint (rect_x (rect obj)) + sint (rect_w (rect obj)) \<in> {- (2 ^ 31) ..< 2 ^ 31} \<and>
    sint (rect_y (rect obj)) + sint (rect_h (rect obj)) \<in> {- (2 ^ 31) ..< 2 ^ 31} \<longrightarrow>
      (containsPoint obj px py \<longleftrightarrow>
         sint px \<in> {sint (rect_x (rect obj)) ..< sint (rect_x (rect obj)) + sint (rect_w (rect obj))} \<and>
         sint py \<in> {sint (rect_y (rect obj)) ..< sint (rect_y (rect obj)) + sint (rect_h (rect obj))})) \<and>
   mouseDown_loop (length objs) objs px py =
     map_option (\<lambda>k. beginDrag objs k px py) (hitTest objs px py) \<and>
   hitTest (objects (addObject (addObject \<lparr>objects = [], rng = seed\<rparr> 0 0) 40 40)) 60 60 = Some 1"
proof (intro conjI)
  show "hitTest (objects (addObject (addObject \<lparr>objects = [], rng = seed\<rparr> 0 0) 40 40)) 60 60 = Some 1"
    by (simp add: addObject_objects hitTest_def containsPoint_def)
next
  show "sint (rect_x (rect obj)) + sint (rect_w (rect obj)) \<in> {- (2 ^ 31) ..< 2 ^ 31} \<and>
    sint (rect_y (rect obj)) + sint (rect_h (rect obj)) \<in> {- (2 ^ 31) ..< 2 ^ 31} \<longrightarrow>
      (containsPoint obj px py \<longleftrightarrow>
         sint px \<in> {sint (rect_x (rect obj)) ..< sint (rect_x (rect obj)) + sint (rect_w (rect obj))} \<and>
         sint py \<in> {sint (rect_y (rect obj)) ..< sint (rect_y (rect obj)) + sint (rect_h (rect obj))})"
    by (auto simp: containsPoint_sint sint_add_no_overflow)
qed (simp_all add: hitTest_def hitTest_from_Some hitTest_None_iff [unfolded hitTest_def]
       mouseDown_loop_hitTest containsPoint_def)

text \<open>
  On the three initial objects the point (330, 230) lies in the second one only, and its
  rectangle \<open>[300, 380) \<times> [200, 280)\<close> is far from overflow.
\<close>

theorem hitTest_topmost_witness:
  "(1::nat) < length (objects (ObjectManager_new (sconst 0))) \<and>
   containsPoint (objects (ObjectManager_new (sconst 0)) ! 1) 330 230 \<and>
   hitTest (objects (ObjectManager_new (sconst 0))) 330 230 = Some 1 \<and>
   sint (330 :: cint) \<in> {300 ..< 380} \<and> sint (230 :: cint) \<in> {200 ..< 280}"
proof -
  let ?objs = "objects (ObjectManager_new (sconst 0))"
  note inst = hitTest_topmost [of ?objs 330 230 1 "?objs ! 1" "sconst 0"]
  have len: "(1::nat) < length ?objs"
    by (simp add: ObjectManager_new_objects)
  have c: "containsPoint (?objs ! 1) 330 230"
    by (simp add: ObjectManager_new_objects DraggableObject_new_def containsPoint_def)
  have top: "\<forall>j. 1 < j \<and> j < length ?objs \<longrightarrow> \<not> containsPoint (?objs ! j) 330 230"
  proof (intro allI impI)
    fix j assume "1 < j \<and> j < length ?objs"
    then have "j = 2"
      by (simp add: ObjectManager_new_objects)
    then show "\<not> containsPoint (?objs ! j) 330 230"
      by (simp add: ObjectManager_new_objects DraggableObject_new_def containsPoint_def)
  qed
  have hit: "hitTest ?objs 330 230 = Some 1"
    using inst len c top by blast
  have rep: "sint (rect_x (rect (?objs ! 1))) + sint (rect_w (rect (?objs ! 1))) \<in> {- (2 ^ 31) ..< 2 ^ 31} \<and>
      sint (rect_y (rect (?objs ! 1))) + sint (rect_h (rect (?objs ! 1))) \<in> {- (2 ^ 31) ..< 2 ^ 31}"
    by (simp add: ObjectManager_new_objects DraggableObject_new_def)
  have "sint (330 :: cint) \<in> {sint (rect_x (rect (?objs ! 1))) ..<
          sint (rect_x (rect (?objs ! 1))) + sint (rect_w (rect (?objs ! 1)))} \<and>
        sint (230 :: cint) \<in> {sint (rect_y (rect (?objs ! 1))) ..<
          sint (rect_y (rect (?objs ! 1))) + sint (rect_h (rect (?objs ! 1)))}"
    using inst rep c by blast
  then have "sint (330 :: cint) \<in> {300 ..< 380} \<and> sint (230 :: cint) \<in> {200 ..< 280}"
    by (simp add: ObjectManager_new_objects DraggableObject_new_def)
  with len c hit show ?thesis
    by simp
qed

subsection \<open>Grabbing an object\<close>

text \<open>
  Claim C5. The hit branch of \<^verbatim>\<open>handleMouseDown\<close> (beginDrag) at a valid index \<open>i\<close> sets
  \<open>isDragging\<close> on that object, sets its drag offset to \<open>(mouseX - rect.x, mouseY - rect.y)\<close>,
  and moves it to the end of the sequence; the other objects keep their relative order and
  are not changed. If the object contains the point, a hit test at the same point on the
  new sequence returns the last index, where the grabbed object now stands. A left press
  whose scan stops at \<open>i\<close> does exactly this and changes nothing else in the manager.
\<close>

theorem beginDrag_moves_to_end:
  assumes "i < length objs"
  shows "beginDrag objs i mx my =
       take i objs @ drop (Suc i) objs @
         [(objs ! i)\<lparr>isDragging := True,
                    dragOffsetX := mx - rect_x (rect (objs ! i)),
                    dragOffsetY := my - rect_y (rect (objs ! i))\<rparr>] \<and>
     last (beginDrag objs i mx my) =
       (objs ! i)\<lparr>isDragging := True,
                  dragOffsetX := mx - rect_x (rect (objs ! i)),
                  dragOffsetY := my - rect_y (rect (objs ! i))\<rparr> \<and>
     (containsPoint (objs ! i) mx my \<longrightarrow>
        hitTest (beginDrag objs i mx my) mx my = Some (length objs - 1)) \<and>
     (ev_button event = SDL_BUTTON_LEFT \<and> objects m = objs \<and>
      hitTest objs (ev_x event) (ev_y event) = Some i \<longrightarrow>
        handleMouseDown m event = m\<lparr>objects := beginDrag objs i (ev_x event) (ev_y event)\<rparr>)"
proof (intro conjI)
  show "last (beginDrag objs i mx my) =
       (objs ! i)\<lparr>isDragging := True,
                  dragOffsetX := mx - rect_x (rect (objs ! i)),
                  dragOffsetY := my - rect_y (rect (objs ! i))\<rparr>"
    using assms by (simp add: beginDrag_eq)
qed (use assms in \<open>simp_all add: beginDrag_eq [symmetric] hitTest_beginDrag handleMouseDown_cases\<close>)

text \<open>
  A left press at (110, 110) on the three initial objects grabs the bottommost one (index
  0): the order becomes second, third, first; only the last has \<open>isDragging\<close>; its offset
  is (10, 10); and the hit test at (110, 110) now returns index 2.
\<close>

theorem beginDrag_moves_to_end_witness:
  "(0::nat) < length (objects (ObjectManager_new (sconst 0))) \<and>
   containsPoint (objects (ObjectManager_new (sconst 0)) ! 0) 110 110 \<and>
   hitTest (objects (ObjectManager_new (sconst 0))) 110 110 = Some 0 \<and>
   map (\<lambda>obj. (rect_x (rect obj), isDragging obj, dragOffsetX obj, dragOffsetY obj))
     (beginDrag (objects (ObjectManager_new (sconst 0))) 0 110 110) =
     [(300, False, 0, 0), (500, False, 0, 0), (100, True, 10, 10)] \<and>
   hitTest (beginDrag (objects (ObjectManager_new (sconst 0))) 0 110 110) 110 110 = Some 2 \<and>
   objects (handleMouseDown (ObjectManager_new (sconst 0)) \<lparr>ev_button = 1, ev_x = 110, ev_y = 110\<rparr>) =
     beginDrag (objects (ObjectManager_new (sconst 0))) 0 110 110"
proof -
  let ?m = "ObjectManager_new (sconst 0)"
  let ?ev = "\<lparr>ev_button = 1, ev_x = 110, ev_y = 110\<rparr> :: SDL_MouseButtonEvent"
  have len: "(0::nat) < length (objects ?m)"
    by (simp add: ObjectManager_new_objects)
  note inst = beginDrag_moves_to_end [OF len, of 110 110 ?ev ?m]
  have c: "containsPoint (objects ?m ! 0) 110 110"
    by (simp add: ObjectManager_new_objects DraggableObject_new_def containsPoint_def)
  have hit: "hitTest (objects ?m) 110 110 = Some 0"
    by (simp add: ObjectManager_new_objects DraggableObject_new_def containsPoint_def hitTest_def)
  have b: "ev_button ?ev = SDL_BUTTON_LEFT"
    by (simp add: SDL_BUTTON_LEFT_def)
  from inst have eq: "beginDrag (objects ?m) 0 110 110 =
      take 0 (objects ?m) @ drop (Suc 0) (objects ?m) @
        [(objects ?m ! 0)\<lparr>isDragging := True,
           dragOffsetX := 110 - rect_x (rect (objects ?m ! 0)),
           dragOffsetY := 110 - rect_y (rect (objects ?m ! 0))\<rparr>]"
    by (rule conjunct1)
  have l: "map (\<lambda>obj. (rect_x (rect obj), isDragging obj, dragOffsetX obj, dragOffsetY obj))
       (beginDrag (objects ?m) 0 110 110) =
     [(300, False, 0, 0), (500, False, 0, 0), (100, True, 10, 10)]"
    unfolding eq by (simp add: ObjectManager_new_objects DraggableObject_new_def)
  from inst c have "hitTest (beginDrag (objects ?m) 0 110 110) 110 110 = Some (length (objects ?m) - 1)"
    by blast
  then have h2: "hitTest (beginDrag (objects ?m) 0 110 110) 110 110 = Some 2"
    by (simp add: ObjectManager_new_objects)
  have "hitTest (objects ?m) (ev_x ?ev) (ev_y ?ev) = Some 0"
    using hit by simp
  with inst b
  have d: "handleMouseDown ?m ?ev = ?m\<lparr>objects := beginDrag (objects ?m) 0 (ev_x ?ev) (ev_y ?ev)\<rparr>"
    by blast
  have "objects (handleMouseDown ?m ?ev) = beginDrag (objects ?m) 0 110 110"
    unfolding d by simp
  with len c hit l h2 show ?thesis
    by simp
qed

subsection \<open>Adding an object\<close>

text \<open>
  Claim C6. A left press at a point that no object contains appends exactly one object:
  80 x 80, top-left exactly at the point of the press (no clamping), not dragging, offsets
  0, with the colour made of the next three values of the generator and alpha 255. The
  objects that were there are unchanged and keep their order, and the generator has moved
  on by three values. The function is total: there is no failing case.
\<close>

theorem press_miss_adds_object:
  assumes "ev_button event = SDL_BUTTON_LEFT"
    and "\<forall>obj \<in> set (objects m). \<not> containsPoint obj (ev_x event) (ev_y event)"
  shows "handleMouseDown m event =
     m\<lparr>objects := objects m @
          [\<lparr>rect = \<lparr>rect_x = ev_x event, rect_y = ev_y event, rect_w = 80, rect_h = 80\<rparr>,
            color = \<lparr>col_r = shd (rng m), col_g = shd (stl (rng m)),
                     col_b = shd (stl (stl (rng m))), col_a = 255\<rparr>,
            isDragging = False, dragOffsetX = 0, dragOffsetY = 0\<rparr>],
       rng := stl (stl (stl (rng m)))\<rparr>"
  using assms hitTest_None_iff [of "objects m" "ev_x event" "ev_y event"]
  by (simp add: handleMouseDown_cases addObject_def generateRandomColor_def colorDist_def
      DraggableObject_new_def)

text \<open>The press at (700, 500) on the three initial objects.\<close>

theorem press_miss_adds_object_witness:
  "ev_button \<lparr>ev_button = 1, ev_x = 700, ev_y = 500\<rparr> = SDL_BUTTON_LEFT \<and>
   hitTest (objects (ObjectManager_new (siterate (\<lambda>v. v + 1) 0))) 700 500 = None \<and>
   objects (handleMouseDown (ObjectManager_new (siterate (\<lambda>v. v + 1) 0))
       \<lparr>ev_button = 1, ev_x = 700, ev_y = 500\<rparr>) =
     objects (ObjectManager_new (siterate (\<lambda>v. v + 1) 0)) @
       [\<lparr>rect = \<lparr>rect_x = 700, rect_y = 500, rect_w = 80, rect_h = 80\<rparr>,
         color = \<lparr>col_r = 9, col_g = 10, col_b = 11, col_a = 255\<rparr>,
         isDragging = False, dragOffsetX = 0, dragOffsetY = 0\<rparr>]"
proof -
  let ?m = "ObjectManager_new (siterate (\<lambda>v. v + 1) 0)"
  let ?ev = "\<lparr>ev_button = 1, ev_x = 700, ev_y = 500\<rparr> :: SDL_MouseButtonEvent"
  have b: "ev_button ?ev = SDL_BUTTON_LEFT"
    by (simp add: SDL_BUTTON_LEFT_def)
  have miss: "\<forall>obj \<in> set (objects ?m). \<not> containsPoint obj (ev_x ?ev) (ev_y ?ev)"
    by (simp add: ObjectManager_new_objects DraggableObject_new_def containsPoint_def)
  have none: "hitTest (objects ?m) 700 500 = None"
    by (simp add: ObjectManager_new_objects DraggableObject_new_def containsPoint_def hitTest_def)
  have g: "rng ?m = siterate (\<lambda>v. v + 1) 9"
    by (simp add: ObjectManager_new_def addObject_rng)
  from press_miss_adds_object [OF b miss] b none show ?thesis
    by (simp add: g)
qed

subsection \<open>Idempotence\<close>

text \<open>
  Claim C7. Handling a release twice gives the same manager as handling it once (for the
  left button the loop that clears every \<open>isDragging\<close> is idempotent, and a later release
  of any button changes nothing more); and a motion event on a manager in which no object
  has \<open>isDragging\<close> set returns the manager unchanged: every bound, colour, flag and offset,
  the order of the sequence and the generator.
\<close>

theorem endDrag_idempotent_updateDrag_noop:
  "handleMouseUp (handleMouseUp m event) event = handleMouseUp m event \<and>
   (ev_button event = SDL_BUTTON_LEFT \<longrightarrow>
      handleMouseUp (handleMouseUp m event) event' = handleMouseUp m event) \<and>
   endDrag (endDrag objs) = endDrag objs \<and>
   ((\<forall>obj \<in> set (objects m). \<not> isDragging obj) \<longrightarrow> handleMouseMotion m motion = m) \<and>
   ((\<forall>obj \<in> set objs. \<not> isDragging obj) \<longrightarrow> updateDrag objs mx my = objs)"
  by (simp add: handleMouseUp_def endDrag_def handleMouseMotion_def updateDrag_def
      drag_not_dragging map_idI comp_def)

text \<open>
  After a left press at (110, 110) one object is being dragged. Two left releases clear it
  as one does, and on the three initial objects, none of them dragged, a motion to
  (900, 50) changes nothing.
\<close>

theorem endDrag_idempotent_updateDrag_noop_witness:
  "ev_button \<lparr>ev_button = 1, ev_x = 120, ev_y = 120\<rparr> = SDL_BUTTON_LEFT \<and>
   handleMouseUp
     (handleMouseUp
        (handleMouseDown (ObjectManager_new (sconst 0)) \<lparr>ev_button = 1, ev_x = 110, ev_y = 110\<rparr>)
        \<lparr>ev_button = 1, ev_x = 120, ev_y = 120\<rparr>)
     \<lparr>ev_button = 1, ev_x = 130, ev_y = 130\<rparr> =
   handleMouseUp
     (handleMouseDown (ObjectManager_new (sconst 0)) \<lparr>ev_button = 1, ev_x = 110, ev_y = 110\<rparr>)
     \<lparr>ev_button = 1, ev_x = 120, ev_y = 120\<rparr> \<and>
   list_all (\<lambda>obj. \<not> isDragging obj) (objects (ObjectManager_new (sconst 0))) \<and>
   handleMouseMotion (ObjectManager_new (sconst 0)) \<lparr>mot_x = 900, mot_y = 50\<rparr> =
     ObjectManager_new (sconst 0)"
proof -
  let ?m = "handleMouseDown (ObjectManager_new (sconst 0)) \<lparr>ev_button = 1, ev_x = 110, ev_y = 110\<rparr>"
  let ?ev = "\<lparr>ev_button = 1, ev_x = 120, ev_y = 120\<rparr> :: SDL_MouseButtonEvent"
  let ?ev' = "\<lparr>ev_button = 1, ev_x = 130, ev_y = 130\<rparr> :: SDL_MouseButtonEvent"
  have b: "ev_button ?ev = SDL_BUTTON_LEFT"
    by (simp add: SDL_BUTTON_LEFT_def)
  have up: "handleMouseUp (handleMouseUp ?m ?ev) ?ev' = handleMouseUp ?m ?ev"
    using endDrag_idempotent_updateDrag_noop [of ?m ?ev ?ev'] b by blast
  have idle: "\<forall>obj \<in> set (objects (ObjectManager_new (sconst 0))). \<not> isDragging obj"
    by (simp add: ObjectManager_new_objects DraggableObject_new_def)
  have mo: "handleMouseMotion (ObjectManager_new (sconst 0)) \<lparr>mot_x = 900, mot_y = 50\<rparr> =
      ObjectManager_new (sconst 0)"
    using endDrag_idempotent_updateDrag_noop
      [of "ObjectManager_new (sconst 0)" ?ev ?ev' "[]" "\<lparr>mot_x = 900, mot_y = 50\<rparr>"] idle
    by blast
  have "list_all (\<lambda>obj. \<not> isDragging obj) (objects (ObjectManager_new (sconst 0)))"
    using idle by (simp add: list_all_iff)
  with b up mo show ?thesis
    by simp
qed

subsection \<open>Size of the registry\<close>

text \<open>
  Claim C8. A new manager holds exactly three objects, at (100, 100), (300, 200) and
  (500, 300). A press adds exactly one object when it is a left press whose scan hits no
  object (a press of another button is not acted on and runs no scan), and otherwise
  keeps the number of objects; releases and motion events keep it; so no event ever
  decreases it, and after any events there are at least three objects.
\<close>

theorem registry_size:
  "length (objects (ObjectManager_new seed)) = 3 \<and>
   map (\<lambda>obj. (rect_x (rect obj), rect_y (rect obj))) (objects (ObjectManager_new seed)) =
     [(100, 100), (300, 200), (500, 300)] \<and>
   length (objects (handleMouseDown m b)) =
     length (objects m) +
       (if ev_button b = SDL_BUTTON_LEFT \<and> hitTest (objects m) (ev_x b) (ev_y b) = None
        then 1 else 0) \<and>
   length (objects (handleMouseUp m b)) = length (objects m) \<and>
   length (objects (handleMouseMotion m mo)) = length (objects m) \<and>
   length (objects (objectManager app)) \<le> length (objects (objectManager (handleEvent app ev))) \<and>
   3 \<le> length (objects_after seed evs)"
  by (simp add: ObjectManager_new_objects DraggableObject_new_def length_handleMouseDown
      length_handleEvent length_objects_after handleMouseUp_def endDrag_def
      handleMouseMotion_def updateDrag_def)

text \<open>
  On the three initial objects, the left press at (700, 500) misses and gives four objects;
  the left press at (110, 110) hits and keeps three.
\<close>

theorem registry_size_witness:
  "hitTest (objects (ObjectManager_new (sconst 0))) 700 500 = None \<and>
   length (objects (handleMouseDown (ObjectManager_new (sconst 0))
      \<lparr>ev_button = 1, ev_x = 700, ev_y = 500\<rparr>)) = 4 \<and>
   hitTest (objects (ObjectManager_new (sconst 0))) 110 110 = Some 0 \<and>
   length (objects (handleMouseDown (ObjectManager_new (sconst 0))
      \<lparr>ev_button = 1, ev_x = 110, ev_y = 110\<rparr>)) = 3"
proof -
  let ?m = "ObjectManager_new (sconst 0)"
  have none: "hitTest (objects ?m) 700 500 = None"
    by (simp add: ObjectManager_new_objects DraggableObject_new_def containsPoint_def hitTest_def)
  have hit: "hitTest (objects ?m) 110 110 = Some 0"
    by (simp add: ObjectManager_new_objects DraggableObject_new_def containsPoint_def hitTest_def)
  have three: "length (objects ?m) = 3"
    using registry_size [of "sconst 0"] by blast
  have "length (objects (handleMouseDown ?m \<lparr>ev_button = 1, ev_x = 700, ev_y = 500\<rparr>)) = 4"
    using registry_size [of "sconst 0" ?m "\<lparr>ev_button = 1, ev_x = 700, ev_y = 500\<rparr>"] none three
    by (simp add: SDL_BUTTON_LEFT_def)
  moreover have "length (objects (handleMouseDown ?m \<lparr>ev_button = 1, ev_x = 110, ev_y = 110\<rparr>)) = 3"
    using registry_size [of "sconst 0" ?m "\<lparr>ev_button = 1, ev_x = 110, ev_y = 110\<rparr>"] hit three
    by (simp add: SDL_BUTTON_LEFT_def)
  ultimately show ?thesis
    using none hit by simp
qed

subsection \<open>Other buttons\<close>

text \<open>
  Claim C9. A press or a release whose button is not the left (primary) one leaves the
  whole state as it was: no object is added, no flag, offset or position changes, the
  order of the sequence and the generator are the same.
\<close>

theorem non_primary_button_no_change:
  "ev_button event \<noteq> SDL_BUTTON_LEFT \<Longrightarrow>
     handleMouseDown m event = m \<and> handleMouseUp m event = m \<and>
     handleEvent app (SDL_MOUSEBUTTONDOWN event) = app \<and>
     handleEvent app (SDL_MOUSEBUTTONUP event) = app"
  by (simp add: handleMouseDown_def handleMouseUp_def)

theorem non_primary_button_no_change_witness:
  "ev_button \<lparr>ev_button = 3, ev_x = 110, ev_y = 110\<rparr> \<noteq> SDL_BUTTON_LEFT \<and>
   handleMouseDown (ObjectManager_new (sconst 7)) \<lparr>ev_button = 3, ev_x = 110, ev_y = 110\<rparr> =
     ObjectManager_new (sconst 7) \<and>
   handleMouseUp (ObjectManager_new (sconst 7)) \<lparr>ev_button = 3, ev_x = 110, ev_y = 110\<rparr> =
     ObjectManager_new (sconst 7)"
proof -
  have h: "ev_button \<lparr>ev_button = 3, ev_x = 110, ev_y = 110\<rparr> \<noteq> SDL_BUTTON_LEFT"
    by (simp add: SDL_BUTTON_LEFT_def)
  from non_primary_button_no_change [OF h, of "ObjectManager_new (sconst 7)"] h show ?thesis
    by simp
qed

subsection \<open>Sizes of the objects\<close>

text \<open>
  Claim C10. After any events, every object of the registry has width 80 and height 80,
  so the upper clamp bounds \<open>800 - w\<close> and \<open>600 - h\<close> that \<^verbatim>\<open>drag\<close> uses are not negative.
  No handler changes a width or a height: motion and release keep the list of sizes, a
  left press that hits object \<open>i\<close> moves the size at \<open>i\<close> to the end, a left press that
  misses appends the size (80, 80), and a press of another button keeps the list.
\<close>

theorem sizes_fixed_80:
  "(\<forall>obj \<in> set (objects_after seed evs).
      rect_w (rect obj) = 80 \<and> rect_h (rect obj) = 80 \<and>
      0 \<le>s WINDOW_WIDTH - rect_w (rect obj) \<and> 0 \<le>s WINDOW_HEIGHT - rect_h (rect obj) \<and>
      0 \<le> sint WINDOW_WIDTH - sint (rect_w (rect obj)) \<and>
      0 \<le> sint WINDOW_HEIGHT - sint (rect_h (rect obj))) \<and>
   map dims (objects (handleMouseMotion m mo)) = map dims (objects m) \<and>
   map dims (objects (handleMouseUp m b)) = map dims (objects m) \<and>
   map dims (objects (handleMouseDown m b)) =
     (if ev_button b = SDL_BUTTON_LEFT then
        (case hitTest (objects m) (ev_x b) (ev_y b) of
           Some i \<Rightarrow> erase_at i (map dims (objects m)) @ [map dims (objects m) ! i]
         | None \<Rightarrow> map dims (objects m) @ [(80, 80)])
      else map dims (objects m))"
proof (intro conjI ballI)
  fix obj assume "obj \<in> set (objects_after seed evs)"
  then have "dims obj = (80, 80)"
    using dims_after [of seed evs] by auto
  then have wh: "rect_w (rect obj) = 80" "rect_h (rect obj) = 80"
    by (simp_all add: dims_def)
  show "rect_w (rect obj) = 80" "rect_h (rect obj) = 80"
    by (fact wh)+
  show "0 \<le>s WINDOW_WIDTH - rect_w (rect obj)" "0 \<le>s WINDOW_HEIGHT - rect_h (rect obj)"
    "0 \<le> sint WINDOW_WIDTH - sint (rect_w (rect obj))"
    "0 \<le> sint WINDOW_HEIGHT - sint (rect_h (rect obj))"
    by (simp_all add: wh WINDOW_WIDTH_def WINDOW_HEIGHT_def word_sle_eq)
next
  show "map dims (objects (handleMouseMotion m mo)) = map dims (objects m)"
    by (simp add: handleMouseMotion_def map_dims_updateDrag)
  show "map dims (objects (handleMouseUp m b)) = map dims (objects m)"
    by (simp add: handleMouseUp_def map_dims_endDrag)
qed (rule map_dims_handleMouseDown)

text \<open>
  After a missing press at (700, 500), a grab of the new object at (710, 510) and a motion
  to (20, 20), the object at index 3 is the added one, moved to (10, 10), still 80 x 80.
\<close>

theorem sizes_fixed_80_witness:
  "length (objects_after (sconst 0)
     [SDL_MOUSEBUTTONDOWN \<lparr>ev_button = 1, ev_x = 700, ev_y = 500\<rparr>,
      SDL_MOUSEBUTTONDOWN \<lparr>ev_button = 1, ev_x = 710, ev_y = 510\<rparr>,
      SDL_MOUSEMOTION \<lparr>mot_x = 20, mot_y = 20\<rparr>]) = 4 \<and>
   rect_x (rect (objects_after (sconst 0)
     [SDL_MOUSEBUTTONDOWN \<lparr>ev_button = 1, ev_x = 700, ev_y = 500\<rparr>,
      SDL_MOUSEBUTTONDOWN \<lparr>ev_button = 1, ev_x = 710, ev_y = 510\<rparr>,
      SDL_MOUSEMOTION \<lparr>mot_x = 20, mot_y = 20\<rparr>] ! 3)) = 10 \<and>
   rect_w (rect (objects_after (sconst 0)
     [SDL_MOUSEBUTTONDOWN \<lparr>ev_button = 1, ev_x = 700, ev_y = 500\<rparr>,
      SDL_MOUSEBUTTONDOWN \<lparr>ev_button = 1, ev_x = 710, ev_y = 510\<rparr>,
      SDL_MOUSEMOTION \<lparr>mot_x = 20, mot_y = 20\<rparr>] ! 3)) = 80 \<and>
   rect_h (rect (objects_after (sconst 0)
     [SDL_MOUSEBUTTONDOWN \<lparr>ev_button = 1, ev_x = 700, ev_y = 500\<rparr>,
      SDL_MOUSEBUTTONDOWN \<lparr>ev_button = 1, ev_x = 710, ev_y = 510\<rparr>,
      SDL_MOUSEMOTION \<lparr>mot_x = 20, mot_y = 20\<rparr>] ! 3)) = 80"
proof -
  let ?objs = "objects_after (sconst 0)
     [SDL_MOUSEBUTTONDOWN \<lparr>ev_button = 1, ev_x = 700, ev_y = 500\<rparr>,
      SDL_MOUSEBUTTONDOWN \<lparr>ev_button = 1, ev_x = 710, ev_y = 510\<rparr>,
      SDL_MOUSEMOTION \<lparr>mot_x = 20, mot_y = 20\<rparr>]"
  have len: "length ?objs = 4"
    by (simp add: run_defs)
  have x: "rect_x (rect (?objs ! 3)) = 10"
    by (simp add: run_defs)
  have "?objs ! 3 \<in> set ?objs"
    by (rule nth_mem) (simp add: len)
  with sizes_fixed_80 [of "sconst 0"]
  have "rect_w (rect (?objs ! 3)) = 80 \<and> rect_h (rect (?objs ! 3)) = 80"
    by blast
  with len x show ?thesis
    by simp
qed

end
